theory Spec2Isabelle
  imports Complex_Main "HOL-Library.Log_Nat" "HOL-Library.Word"
begin

section \<open>The stopwatch: a clock whose speed can be changed\<close>

text \<open>
  The class \<open>stopwatch\<close> keeps a pair \<open>m_sync\<close> of time points (when it was last
  compared to \<open>std::chrono::steady_clock\<close>, and what its own time was then) and a speed
  \<open>m_speed\<close>. Its time now is the second time point plus the steady time elapsed since
  the first one, multiplied by the speed.

  Modelling decisions. The number types are those of the source on x86-64 (Linux, GCC
  or Clang), where \<open>steady_clock::duration\<close> counts nanoseconds in a signed 64-bit
  integer and \<open>long double\<close> is the 80-bit extended format.
  \<^item> \<open>duration::rep\<close> is a 64-bit word read as a signed integer (\<open>sint\<close>); a time point
    is its tick count since the epoch.
  \<^item> \<open>long double\<close> is a real number with a significand of 64 bits: \<open>ld_round\<close> rounds
    a real to the nearest such number, ties to the even significand. A tick count
    converts to \<open>long double\<close> exactly; a product is the exact product, rounded. The
    exponent is not bounded and there is no infinity and no NaN: a speed is a finite
    number. (A product too large for the format is too large for \<open>rep\<close> as well, and one
    too small to be normal truncates to zero ticks in either case.)
  \<^item> Where C++ leaves the behaviour undefined, the model does what the x86-64
    instructions do: signed addition and subtraction wrap around, and the conversion of
    a \<open>long double\<close> that does not fit \<open>rep\<close> yields the smallest value
    (\<open>0x8000000000000000\<close>). The predicate \<open>impl_now_defined\<close> says that a call of
    \<open>impl_now\<close> stays clear of all that; the theorems that read the tick counts as
    integers assume it.
  \<^item> \<open>steady_clock\<close> is the outside world: the sequence of readings that successive
    calls of \<open>steady_clock::now()\<close> return, and the number of calls made so far.
  \<^item> every member function is non-const in the source, so each one returns the object
    (and the clock) next to its result.
\<close>

subsection \<open>Ticks, time points and the steady clock\<close>

type_synonym rep = "64 word"
type_synonym duration = rep
type_synonym steady_time_point = rep
type_synonym time_point = rep

record steady_clock =
  reading :: "nat \<Rightarrow> steady_time_point"
  reads :: nat

definition steady_clock_now :: "steady_clock \<Rightarrow> steady_time_point \<times> steady_clock" where
  "steady_clock_now c = (reading c (reads c), c\<lparr>reads := Suc (reads c)\<rparr>)"

text \<open>The values of a signed 64-bit integer.\<close>

definition in_range :: "int \<Rightarrow> bool" where
  "in_range n \<longleftrightarrow> - (2 ^ 63) \<le> n \<and> n < 2 ^ 63"

subsection \<open>The arithmetic of \<open>long double\<close>\<close>

text \<open>Rounding to the nearest integer, a tie to the even one.\<close>

definition round_even :: "real \<Rightarrow> int" where
  "round_even y =
     (let f = \<lfloor>y\<rfloor>; d = y - real_of_int f
      in if d < 1 / 2 then f else if 1 / 2 < d then f + 1 else if even f then f else f + 1)"

text \<open>
  The binary exponent of a real other than zero: \<open>2 powi expo x \<le> \<bar>x\<bar> < 2 powi (expo x + 1)\<close>.
  It is computed from the number of bits of the integer part, or else of the integer
  part of the inverse.
\<close>

definition expo :: "real \<Rightarrow> int" where
  "expo x = (if 1 \<le> \<bar>x\<bar> then bitlen \<lfloor>\<bar>x\<bar>\<rfloor> - 1 else - bitlen (\<lceil>1 / \<bar>x\<bar>\<rceil> - 1))"

text \<open>
  Rounding to a significand of 64 bits: the unit in the last place of \<open>x\<close> is
  \<open>2 powi (expo x - 63)\<close>, and \<open>x\<close> is rounded to the nearest multiple of it.
\<close>

definition ld_round :: "real \<Rightarrow> real" where
  "ld_round x =
     (if x = 0 then 0
      else real_of_int (round_even (x / 2 powi (expo x - 63))) * 2 powi (expo x - 63))"

text \<open>
  \<open>static_cast<long double>\<close> of a tick count (every 64-bit integer fits the
  significand), and the product of two \<open>long double\<close>.
\<close>

definition ld_of_rep :: "rep \<Rightarrow> real" where
  "ld_of_rep d = real_of_int (sint d)"

definition ld_mul :: "real \<Rightarrow> real \<Rightarrow> real" where
  "ld_mul a b = ld_round (a * b)"

text \<open>
  \<open>std::chrono::duration_cast<duration>\<close> from a \<open>long double\<close> count of the same period
  is \<open>static_cast<rep>\<close>: the fractional part is discarded (\<open>toward_zero\<close>). If the
  result does not fit \<open>rep\<close> the behaviour is undefined in C++; the x86-64 conversion
  instruction stores the smallest 64-bit integer.
\<close>

definition toward_zero :: "real \<Rightarrow> int" where
  "toward_zero x = (if x < 0 then - \<lfloor>- x\<rfloor> else \<lfloor>x\<rfloor>)"

definition duration_cast :: "real \<Rightarrow> duration" where
  "duration_cast x =
     (if in_range (toward_zero x) then word_of_int (toward_zero x) else word_of_int (- (2 ^ 63)))"

subsection \<open>The class\<close>

record stopwatch =
  m_sync :: "steady_time_point \<times> time_point"
  m_speed :: real

definition impl_now ::
  "stopwatch \<Rightarrow> steady_clock \<Rightarrow> (steady_time_point \<times> time_point) \<times> stopwatch \<times> steady_clock" where
  "impl_now this c =
     (let (steady_now, c') = steady_clock_now c;
          before_sync = snd (m_sync this);
          after_sync = duration_cast
            (ld_mul (ld_of_rep (steady_now - fst (m_sync this))) (m_speed this))
      in ((steady_now, before_sync + after_sync), this, c'))"

text \<open>
  A call of \<open>impl_now\<close> has defined behaviour in C++ when the subtraction of the two
  steady time points does not overflow, the rounded product fits \<open>rep\<close> after
  truncation, and the addition to the logical time of the synchronization point does
  not overflow.
\<close>

definition impl_now_defined :: "stopwatch \<Rightarrow> steady_clock \<Rightarrow> bool" where
  "impl_now_defined this c =
     (let steady_now = reading c (reads c);
          elapsed = sint steady_now - sint (fst (m_sync this));
          after_sync = toward_zero (ld_mul (real_of_int elapsed) (m_speed this))
      in in_range elapsed \<and> in_range after_sync
         \<and> in_range (sint (snd (m_sync this)) + after_sync))"

definition stopwatch_ctor :: "real \<Rightarrow> steady_clock \<Rightarrow> stopwatch \<times> steady_clock" where
  "stopwatch_ctor speed c =
     (let (steady_now, c') = steady_clock_now c;
          steady_since_epoch = steady_now
      in (\<lparr>m_sync = (steady_now, steady_since_epoch), m_speed = speed\<rparr>, c'))"

text \<open>The constructor's default argument: \<open>long double speed = 1\<close>.\<close>

definition stopwatch_default :: "steady_clock \<Rightarrow> stopwatch \<times> steady_clock" where
  "stopwatch_default c = stopwatch_ctor 1 c"

definition now :: "stopwatch \<Rightarrow> steady_clock \<Rightarrow> time_point \<times> stopwatch \<times> steady_clock" where
  "now this c = (let (r, this', c') = impl_now this c in (snd r, this', c'))"

definition set_speed :: "real \<Rightarrow> stopwatch \<Rightarrow> steady_clock \<Rightarrow> stopwatch \<times> steady_clock" where
  "set_speed speed this c =
     (let ((steady_now, my_now), this', c') = impl_now this c
      in (this'\<lparr>m_sync := (steady_now, my_now), m_speed := speed\<rparr>, c'))"

definition speed :: "stopwatch \<Rightarrow> real \<times> stopwatch" where
  "speed this = (m_speed this, this)"

subsection \<open>Sequences of calls\<close>

text \<open>
  A client holds one stopwatch and calls its member functions one after the other.
  \<open>call\<close> names a call, \<open>answer\<close> is what the call returns, \<open>exec\<close> makes one call
  and \<open>run\<close> a sequence of them, collecting the answers.
\<close>

datatype call = Now | Set_speed real | Speed

datatype answer = Time_point time_point | Void | Rate real

fun exec :: "call \<Rightarrow> stopwatch \<times> steady_clock \<Rightarrow> answer \<times> stopwatch \<times> steady_clock" where
  "exec Now (sw, c) = (let (t, sw', c') = now sw c in (Time_point t, sw', c'))"
| "exec (Set_speed x) (sw, c) = (let (sw', c') = set_speed x sw c in (Void, sw', c'))"
| "exec Speed (sw, c) = (let (x, sw') = speed sw in (Rate x, sw', c))"

fun run :: "call list \<Rightarrow> stopwatch \<times> steady_clock \<Rightarrow> answer list \<times> stopwatch \<times> steady_clock" where
  "run [] s = ([], s)"
| "run (k # ks) s =
     (let (a, s') = exec k s; (as, s'') = run ks s' in (a # as, s''))"

subsection \<open>Client code\<close>



text \<open>
  What the example program measures: a time point, then some changes of speed, then a
  second time point, and the duration between the two
  (\<open>auto start = sw.now(); sw.set_speed(..); ..; auto finish = sw.now(); finish - start\<close>).
\<close>

fun set_speeds :: "real list \<Rightarrow> stopwatch \<Rightarrow> steady_clock \<Rightarrow> stopwatch \<times> steady_clock" where
  "set_speeds [] this c = (this, c)"
| "set_speeds (x # xs) this c = (let (this', c') = set_speed x this c in set_speeds xs this' c')"

definition duration_across :: "real list \<Rightarrow> stopwatch \<Rightarrow> steady_clock \<Rightarrow> duration" where
  "duration_across xs this c =
     (let (start, this1, c1) = now this c;
          (this2, c2) = set_speeds xs this1 c1;
          (finish, this3, c3) = now this2 c2
      in finish - start)"

text \<open>The time point \<open>now()\<close> returns after the changes of speed.\<close>

definition final_now :: "real list \<Rightarrow> stopwatch \<Rightarrow> steady_clock \<Rightarrow> time_point" where
  "final_now xs this c = fst (now (fst (set_speeds xs this c)) (snd (set_speeds xs this c)))"

text \<open>
  The changes of speed and the final \<open>now()\<close> all have defined behaviour; for the whole
  measurement, so has the first \<open>now()\<close>, and the subtraction of the two time points
  does not overflow.
\<close>

fun final_now_defined :: "real list \<Rightarrow> stopwatch \<Rightarrow> steady_clock \<Rightarrow> bool" where
  "final_now_defined [] this c = impl_now_defined this c"
| "final_now_defined (x # xs) this c =
     (impl_now_defined this c
      \<and> (let (this', c') = set_speed x this c in final_now_defined xs this' c'))"

definition duration_across_defined :: "real list \<Rightarrow> stopwatch \<Rightarrow> steady_clock \<Rightarrow> bool" where
  "duration_across_defined xs this c =
     (let (start, this1, c1) = now this c
      in impl_now_defined this c \<and> final_now_defined xs this1 c1
         \<and> in_range (sint (final_now xs this1 c1) - sint start))"

text \<open>
  What the duration between the two time points is not: the steady time elapsed
  between the two calls of \<open>now()\<close>, times the last speed set.
\<close>

definition elapsed_at_final_rate :: "real list \<Rightarrow> stopwatch \<Rightarrow> steady_clock \<Rightarrow> real" where
  "elapsed_at_final_rate xs this c =
     real_of_int (sint (reading c (reads c + Suc (length xs))) - sint (reading c (reads c)))
       * last (m_speed this # xs)"

text \<open>
  The specification's sum over segments, in exact arithmetic: from the steady time
  \<open>from\<close> the speed is \<open>r\<close>; at the readings number \<open>k\<close>, \<open>k + 1\<close>, ... of \<open>f\<close> it
  becomes the next element of the list; the reading after the last change ends the last
  segment. Each segment counts its steady duration times its speed.
\<close>

fun segments :: "int \<Rightarrow> real \<Rightarrow> real list \<Rightarrow> (nat \<Rightarrow> steady_time_point) \<Rightarrow> nat \<Rightarrow> real" where
  "segments from r [] f k = real_of_int (sint (f k) - from) * r"
| "segments from r (x # xs) f k =
     real_of_int (sint (f k) - from) * r + segments (sint (f k)) x xs f (Suc k)"

subsection \<open>Steady clocks for examples\<close>

text \<open>
  One starts at \<open>start\<close> and every call finds it \<open>step\<close> ticks later; the other delivers
  the readings of a list and then stays at the last one.
\<close>

definition ticking :: "steady_time_point \<Rightarrow> duration \<Rightarrow> steady_clock" where
  "ticking start step = \<lparr>reading = (\<lambda>k. start + step * of_nat k), reads = 0\<rparr>"

definition replay :: "steady_time_point list \<Rightarrow> steady_clock" where
  "replay ts = \<lparr>reading = (\<lambda>k. if k < length ts then ts ! k else last ts), reads = 0\<rparr>"

section \<open>Rounding to a \<open>long double\<close>\<close>

lemma round_even_of_int: "round_even (real_of_int n) = n"
  by (simp add: round_even_def)

lemma round_even_mono:
  assumes "x \<le> y"
  shows "round_even x \<le> round_even y"
proof (cases "\<lfloor>x\<rfloor> = \<lfloor>y\<rfloor>")
  case True
  with assms show ?thesis
    unfolding round_even_def Let_def by (auto split: if_splits)
next
  case False
  with assms have "\<lfloor>x\<rfloor> + 1 \<le> \<lfloor>y\<rfloor>"
    using floor_mono [OF assms] by linarith
  moreover have "round_even x \<le> \<lfloor>x\<rfloor> + 1"
    unfolding round_even_def Let_def by auto
  moreover have "\<lfloor>y\<rfloor> \<le> round_even y"
    unfolding round_even_def Let_def by auto
  ultimately show ?thesis
    by linarith
qed

lemma round_even_lower: "real_of_int n \<le> y \<Longrightarrow> n \<le> round_even y"
  using round_even_mono [of "real_of_int n" y] by (simp add: round_even_of_int)

lemma round_even_upper: "y \<le> real_of_int n \<Longrightarrow> round_even y \<le> n"
  using round_even_mono [of y "real_of_int n"] by (simp add: round_even_of_int)

lemma round_even_uminus: "round_even (- y) = - round_even y"
proof (cases "y = real_of_int \<lfloor>y\<rfloor>")
  case True
  then obtain n where "y = real_of_int n" ..
  then show ?thesis
    by (simp add: round_even_of_int flip: of_int_minus)
next
  case False
  then have fl: "\<lfloor>- y\<rfloor> = - \<lfloor>y\<rfloor> - 1"
    by (simp add: floor_minus ceiling_altdef)
  show ?thesis
    unfolding round_even_def Let_def fl by (auto split: if_splits)
qed

lemma expo_bounds:
  assumes "x \<noteq> 0"
  shows "2 powi expo x \<le> \<bar>x\<bar>" and "\<bar>x\<bar> < 2 powi (expo x + 1)"
proof -
  have "2 powi expo x \<le> \<bar>x\<bar> \<and> \<bar>x\<bar> < 2 powi (expo x + 1)"
  proof (cases "1 \<le> \<bar>x\<bar>")
    case True
    let ?n = "\<lfloor>\<bar>x\<bar>\<rfloor>"
    from True have pos: "0 < ?n"
      by simp
    then have b1: "1 \<le> bitlen ?n"
      using bitlen_eq_zero_iff [of ?n] bitlen_nonneg [of ?n] by linarith
    from bitlen_bounds [OF pos]
    have lo: "2 ^ nat (bitlen ?n - 1) \<le> ?n" and hi: "?n < 2 ^ nat (bitlen ?n)"
      by simp_all
    from lo have "real_of_int (2 ^ nat (bitlen ?n - 1)) \<le> \<bar>x\<bar>"
      by (simp only: le_floor_iff)
    then have lo': "2 ^ nat (bitlen ?n - 1) \<le> \<bar>x\<bar>"
      by simp
    from hi have "\<bar>x\<bar> < real_of_int (2 ^ nat (bitlen ?n))"
      by (simp only: floor_less_iff)
    then have hi': "\<bar>x\<bar> < 2 ^ nat (bitlen ?n)"
      by simp
    from True b1 lo' hi' show ?thesis
      by (simp add: expo_def power_int_def)
  next
    case False
    let ?y = "1 / \<bar>x\<bar>"
    let ?m = "\<lceil>?y\<rceil> - 1"
    from False assms have y1: "1 < ?y"
      by simp
    then have pos: "0 < ?m"
      by simp
    then have b1: "1 \<le> bitlen ?m"
      using bitlen_eq_zero_iff [of ?m] bitlen_nonneg [of ?m] by linarith
    from bitlen_bounds [OF pos]
    have lo: "2 ^ nat (bitlen ?m - 1) \<le> ?m" and hi: "?m < 2 ^ nat (bitlen ?m)"
      by simp_all
    from hi have "\<lceil>?y\<rceil> \<le> 2 ^ nat (bitlen ?m)"
      by linarith
    then have "?y \<le> real_of_int (2 ^ nat (bitlen ?m))"
      by (simp only: ceiling_le_iff)
    then have up: "?y \<le> 2 ^ nat (bitlen ?m)"
      by simp
    from lo have "2 ^ nat (bitlen ?m - 1) < \<lceil>?y\<rceil>"
      by linarith
    then have "real_of_int (2 ^ nat (bitlen ?m - 1)) < ?y"
      by (simp only: less_ceiling_iff)
    then have down: "2 ^ nat (bitlen ?m - 1) < ?y"
      by simp
    from assms have xpos: "0 < \<bar>x\<bar>"
      by simp
    from up xpos have "1 \<le> 2 ^ nat (bitlen ?m) * \<bar>x\<bar>"
      by (simp add: field_simps)
    then have A: "1 / 2 ^ nat (bitlen ?m) \<le> \<bar>x\<bar>"
      by (simp add: field_simps)
    from down xpos have "2 ^ nat (bitlen ?m - 1) * \<bar>x\<bar> < 1"
      by (simp add: field_simps)
    then have B: "\<bar>x\<bar> < 1 / 2 ^ nat (bitlen ?m - 1)"
      by (simp add: field_simps)
    have e: "expo x = - bitlen ?m"
      using False by (simp add: expo_def)
    have p1: "(2::real) powi (- bitlen ?m) = 1 / 2 ^ nat (bitlen ?m)"
      using b1 by (simp add: power_int_def field_simps)
    have p2: "(2::real) powi (- bitlen ?m + 1) = 1 / 2 ^ nat (bitlen ?m - 1)"
      using b1 by (simp add: power_int_def field_simps nat_diff_distrib)
    from A B show ?thesis
      unfolding e p1 p2 by simp
  qed
  then show "2 powi expo x \<le> \<bar>x\<bar>" and "\<bar>x\<bar> < 2 powi (expo x + 1)"
    by simp_all
qed

lemma two_powi_less_cancel: "(2::real) powi a < 2 powi b \<Longrightarrow> a < b"
proof (rule ccontr)
  assume less: "(2::real) powi a < 2 powi b" and "\<not> a < b"
  then have "b \<le> a"
    by simp
  then have "(2::real) powi b \<le> 2 powi a"
    by (intro power_int_increasing) simp_all
  with less show False
    by simp
qed

lemma expo_unique:
  assumes lo: "2 powi e \<le> \<bar>x\<bar>" and hi: "\<bar>x\<bar> < 2 powi (e + 1)"
  shows "expo x = e"
proof -
  have epos: "(0::real) < 2 powi e"
    by simp
  have nz: "x \<noteq> 0"
  proof
    assume "x = 0"
    with lo have "(2::real) powi e \<le> 0"
      by simp
    with epos show False
      by linarith
  qed
  from expo_bounds(1) [OF nz] hi have "(2::real) powi expo x < 2 powi (e + 1)"
    by (rule le_less_trans)
  then have a: "expo x < e + 1"
    by (rule two_powi_less_cancel)
  from lo expo_bounds(2) [OF nz] have "(2::real) powi e < 2 powi (expo x + 1)"
    by (rule le_less_trans)
  then have "e < expo x + 1"
    by (rule two_powi_less_cancel)
  with a show ?thesis
    by simp
qed

lemma expo_uminus: "expo (- x) = expo x"
  by (simp add: expo_def)

lemma ld_round_zero: "ld_round 0 = 0"
  by (simp add: ld_round_def)

lemma ld_round_uminus: "ld_round (- x) = - ld_round x"
  by (simp add: ld_round_def expo_uminus round_even_uminus)

lemma scaled_bounds:
  assumes "0 < x"
  shows "2 ^ 63 \<le> x / 2 powi (expo x - 63)" and "x / 2 powi (expo x - 63) < 2 ^ 64"
proof -
  from assms have nz: "x \<noteq> 0" and ab: "\<bar>x\<bar> = x"
    by simp_all
  have u: "(0::real) < 2 powi (expo x - 63)"
    by simp
  have e1: "(2::real) powi expo x = 2 ^ 63 * 2 powi (expo x - 63)"
    by (simp add: power_int_diff)
  have e2: "(2::real) powi (expo x + 1) = 2 ^ 64 * 2 powi (expo x - 63)"
    by (simp add: power_int_diff power_int_add)
  from expo_bounds(1) [OF nz] ab e1 have "2 ^ 63 * 2 powi (expo x - 63) \<le> x"
    by simp
  with u show "2 ^ 63 \<le> x / 2 powi (expo x - 63)"
    by (simp add: pos_le_divide_eq)
  from expo_bounds(2) [OF nz] ab e2 have "x < 2 ^ 64 * 2 powi (expo x - 63)"
    by simp
  with u show "x / 2 powi (expo x - 63) < 2 ^ 64"
    by (simp add: pos_divide_less_eq)
qed

lemma ld_round_pos_bounds:
  assumes "0 < x"
  shows "2 powi expo x \<le> ld_round x" and "ld_round x \<le> 2 powi (expo x + 1)"
proof -
  let ?u = "(2::real) powi (expo x - 63)"
  have u: "0 < ?u"
    by simp
  have e1: "(2::real) powi expo x = 2 ^ 63 * ?u"
    by (simp add: power_int_diff)
  have e2: "(2::real) powi (expo x + 1) = 2 ^ 64 * ?u"
    by (simp add: power_int_diff power_int_add)
  from scaled_bounds(1) [OF assms] have "real_of_int (2 ^ 63) \<le> x / ?u"
    by simp
  then have "2 ^ 63 \<le> round_even (x / ?u)"
    by (rule round_even_lower)
  then have "real_of_int (2 ^ 63) \<le> real_of_int (round_even (x / ?u))"
    by (simp only: of_int_le_iff)
  with u have "2 ^ 63 * ?u \<le> real_of_int (round_even (x / ?u)) * ?u"
    by simp
  with assms show "2 powi expo x \<le> ld_round x"
    by (simp add: ld_round_def e1)
  from scaled_bounds(2) [OF assms] have "x / ?u \<le> real_of_int (2 ^ 64)"
    by simp
  then have "round_even (x / ?u) \<le> 2 ^ 64"
    by (rule round_even_upper)
  then have "real_of_int (round_even (x / ?u)) \<le> real_of_int (2 ^ 64)"
    by (simp only: of_int_le_iff)
  with u have "real_of_int (round_even (x / ?u)) * ?u \<le> 2 ^ 64 * ?u"
    by simp
  with assms show "ld_round x \<le> 2 powi (expo x + 1)"
    by (simp add: ld_round_def e2)
qed

lemma ld_round_nonneg: "0 \<le> x \<Longrightarrow> 0 \<le> ld_round x"
proof (cases "x = 0")
  case True
  then show ?thesis by (simp add: ld_round_zero)
next
  case False
  assume "0 \<le> x"
  with False have pos: "0 < x"
    by simp
  have "(0::real) \<le> 2 powi expo x"
    by simp
  with ld_round_pos_bounds(1) [OF pos] show ?thesis
    by linarith
qed

lemma ld_round_mono_pos:
  assumes pos: "0 < x" and le: "x \<le> y"
  shows "ld_round x \<le> ld_round y"
proof -
  from pos le have ypos: "0 < y"
    by simp
  consider "expo x = expo y" | "expo x < expo y" | "expo y < expo x"
    by linarith
  then show ?thesis
  proof cases
    case 1
    let ?u = "(2::real) powi (expo y - 63)"
    have u: "0 < ?u"
      by simp
    with le have "x / ?u \<le> y / ?u"
      by (simp add: divide_right_mono)
    then have "round_even (x / ?u) \<le> round_even (y / ?u)"
      by (rule round_even_mono)
    then have "real_of_int (round_even (x / ?u)) \<le> real_of_int (round_even (y / ?u))"
      by (simp only: of_int_le_iff)
    with u have "real_of_int (round_even (x / ?u)) * ?u \<le> real_of_int (round_even (y / ?u)) * ?u"
      by simp
    with pos ypos 1 show ?thesis
      by (simp add: ld_round_def)
  next
    case 2
    then have "expo x + 1 \<le> expo y"
      by simp
    then have "(2::real) powi (expo x + 1) \<le> 2 powi expo y"
      by (intro power_int_increasing) simp_all
    with ld_round_pos_bounds(2) [OF pos] ld_round_pos_bounds(1) [OF ypos] show ?thesis
      by linarith
  next
    case 3
    then have "expo y + 1 \<le> expo x"
      by simp
    then have "(2::real) powi (expo y + 1) \<le> 2 powi expo x"
      by (intro power_int_increasing) simp_all
    with expo_bounds(2) [of y] expo_bounds(1) [of x] pos ypos le show ?thesis
      by simp
  qed
qed

lemma ld_round_mono:
  assumes le: "x \<le> y"
  shows "ld_round x \<le> ld_round y"
proof -
  consider "0 < x" | "x \<le> 0" "0 \<le> y" | "y < 0"
    by linarith
  then show ?thesis
  proof cases
    case 1
    then show ?thesis
      using le by (rule ld_round_mono_pos)
  next
    case 2
    then have "0 \<le> ld_round (- x)" and "0 \<le> ld_round y"
      by (simp_all add: ld_round_nonneg)
    then show ?thesis
      by (simp add: ld_round_uminus)
  next
    case 3
    with le have "0 < - y" and "- y \<le> - x"
      by simp_all
    then have "ld_round (- y) \<le> ld_round (- x)"
      by (rule ld_round_mono_pos)
    then show ?thesis
      by (simp add: ld_round_uminus)
  qed
qed

text \<open>
  A number with a significand of at most 64 bits is a \<open>long double\<close>: rounding leaves
  it as it is. So every 64-bit integer is one.
\<close>

lemma ld_round_dyadic:
  assumes small: "\<bar>m\<bar> < 2 ^ 64"
  shows "ld_round (real_of_int m * 2 powi j) = real_of_int m * 2 powi j"
proof (cases "m = 0")
  case True
  then show ?thesis
    by (simp add: ld_round_zero)
next
  case False
  let ?x = "real_of_int m * 2 powi j"
  let ?e = "expo ?x"
  have pj: "(0::real) < 2 powi j"
    by simp
  from False have nz: "?x \<noteq> 0"
    by simp
  have "\<bar>?x\<bar> = real_of_int \<bar>m\<bar> * 2 powi j"
    using pj by (simp add: abs_mult)
  also from small have "real_of_int \<bar>m\<bar> < real_of_int (2 ^ 64)"
    by (simp only: of_int_less_iff)
  then have "real_of_int \<bar>m\<bar> * 2 powi j < 2 ^ 64 * 2 powi j"
    using pj by simp
  also have "(2::real) ^ 64 * 2 powi j = 2 powi (64 + j)"
    by (simp add: power_int_add)
  finally have "\<bar>?x\<bar> < 2 powi (64 + j)" .
  with expo_bounds(1) [OF nz] have "(2::real) powi ?e < 2 powi (64 + j)"
    by (rule le_less_trans)
  then have "?e < 64 + j"
    by (rule two_powi_less_cancel)
  then have n: "0 \<le> 63 + j - ?e"
    by simp
  have "?x / 2 powi (?e - 63) = real_of_int m * 2 powi (63 + j - ?e)"
    by (simp add: power_int_diff power_int_add field_simps)
  also have "\<dots> = real_of_int (m * 2 ^ nat (63 + j - ?e))"
    using n by (simp add: power_int_def)
  finally have "round_even (?x / 2 powi (?e - 63)) = m * 2 ^ nat (63 + j - ?e)"
    by (simp only: round_even_of_int)
  then have "ld_round ?x = real_of_int (m * 2 ^ nat (63 + j - ?e)) * 2 powi (?e - 63)"
    using nz by (simp add: ld_round_def)
  also have "\<dots> = real_of_int m * 2 powi (63 + j - ?e) * 2 powi (?e - 63)"
    using n by (simp add: power_int_def)
  also have "\<dots> = ?x"
    by (simp add: power_int_diff power_int_add field_simps)
  finally show ?thesis .
qed

lemma ld_round_of_int: "\<bar>m\<bar> < 2 ^ 64 \<Longrightarrow> ld_round (real_of_int m) = real_of_int m"
  using ld_round_dyadic [of m 0] by simp

text \<open>Rounding a number whose exponent is known: for calculating examples.\<close>

lemma ld_round_scaled:
  assumes lo: "2 ^ 63 \<le> \<bar>x\<bar> * 2 ^ k" and hi: "\<bar>x\<bar> * 2 ^ k < 2 ^ 64"
  shows "ld_round x = real_of_int (round_even (x * 2 ^ k)) / 2 ^ k"
proof -
  have p: "(2::real) powi (63 - int k) = 2 ^ 63 / 2 ^ k"
    by (simp add: power_int_diff)
  have q: "(2::real) powi (63 - int k + 1) = 2 ^ 64 / 2 ^ k"
    by (simp add: power_int_diff power_int_add)
  from lo have "2 powi (63 - int k) \<le> \<bar>x\<bar>"
    unfolding p by (simp add: field_simps)
  moreover from hi have "\<bar>x\<bar> < 2 powi (63 - int k + 1)"
    unfolding q by (simp add: field_simps)
  ultimately have e: "expo x = 63 - int k"
    by (rule expo_unique)
  from lo have nz: "x \<noteq> 0"
    by auto
  have u: "(2::real) powi (expo x - 63) = 1 / 2 ^ k"
    unfolding e by (simp add: power_int_minus field_simps)
  from nz show ?thesis
    by (simp add: ld_round_def u)
qed

section \<open>Signed 64-bit arithmetic and truncation\<close>

lemma in_range_sint: "in_range (sint (w :: 64 word))"
  using sint_ge [of w] sint_lt [of w] by (simp add: in_range_def)

lemma sint_word_of_int: "in_range n \<Longrightarrow> sint (word_of_int n :: 64 word) = n"
  by (simp add: in_range_def sint_sbintrunc' signed_take_bit_int_eq_self)

lemma sint_diff: "in_range (sint a - sint b) \<Longrightarrow> sint (a - b) = sint a - sint (b :: 64 word)"
  by (simp add: in_range_def sint_word_ariths signed_take_bit_int_eq_self)

lemma sint_sum: "in_range (sint a + sint b) \<Longrightarrow> sint (a + b) = sint a + sint (b :: 64 word)"
  by (simp add: in_range_def sint_word_ariths signed_take_bit_int_eq_self)

lemma toward_zero_zero: "toward_zero 0 = 0"
  by (simp add: toward_zero_def)

lemma toward_zero_of_int: "toward_zero (real_of_int n) = n"
  by (simp add: toward_zero_def)

lemma toward_zero_mono:
  assumes le: "x \<le> y"
  shows "toward_zero x \<le> toward_zero y"
proof -
  consider "y < 0" | "x < 0" "0 \<le> y" | "0 \<le> x"
    by linarith
  then show ?thesis
  proof cases
    case 1
    then have "\<lfloor>- y\<rfloor> \<le> \<lfloor>- x\<rfloor>"
      using le by (intro floor_mono) simp
    with 1 le show ?thesis
      by (simp add: toward_zero_def)
  next
    case 2
    then have "- \<lfloor>- x\<rfloor> \<le> 0" and "0 \<le> \<lfloor>y\<rfloor>"
      by simp_all
    then have "- \<lfloor>- x\<rfloor> \<le> \<lfloor>y\<rfloor>"
      by (rule order_trans)
    with 2 show ?thesis
      by (simp add: toward_zero_def)
  next
    case 3
    then have "\<lfloor>x\<rfloor> \<le> \<lfloor>y\<rfloor>"
      using le by (intro floor_mono)
    with 3 le show ?thesis
      by (simp add: toward_zero_def)
  qed
qed

text \<open>
  The ticks of a product: rounded to a \<open>long double\<close>, then truncated. They grow with
  the product, they are exact on integers, and where they fit \<open>rep\<close> they are within
  one tick of the product.
\<close>

lemma ticks_mono: "x \<le> y \<Longrightarrow> toward_zero (ld_round x) \<le> toward_zero (ld_round y)"
  by (intro toward_zero_mono ld_round_mono)

lemma ticks_of_int: "\<bar>n\<bar> < 2 ^ 64 \<Longrightarrow> toward_zero (ld_round (real_of_int n)) = n"
  by (simp add: ld_round_of_int toward_zero_of_int)

lemma ticks_bound:
  assumes "in_range (toward_zero (ld_round x))"
  shows "- (2 ^ 63) - 1 < x" and "x < 2 ^ 63"
proof -
  show "x < 2 ^ 63"
  proof (rule ccontr)
    assume "\<not> x < 2 ^ 63"
    then have "real_of_int (2 ^ 63) \<le> x"
      by simp
    then have "toward_zero (ld_round (real_of_int (2 ^ 63))) \<le> toward_zero (ld_round x)"
      by (rule ticks_mono)
    moreover have "toward_zero (ld_round (real_of_int (2 ^ 63))) = 2 ^ 63"
      by (rule ticks_of_int) simp
    ultimately show False
      using assms by (simp add: in_range_def)
  qed
  show "- (2 ^ 63) - 1 < x"
  proof (rule ccontr)
    assume "\<not> - (2 ^ 63) - 1 < x"
    then have "x \<le> real_of_int (- (2 ^ 63) - 1)"
      by simp
    then have "toward_zero (ld_round x) \<le> toward_zero (ld_round (real_of_int (- (2 ^ 63) - 1)))"
      by (rule ticks_mono)
    moreover have "toward_zero (ld_round (real_of_int (- (2 ^ 63) - 1))) = - (2 ^ 63) - 1"
      by (rule ticks_of_int) simp
    ultimately show False
      using assms by (simp add: in_range_def)
  qed
qed

lemma ticks_error:
  assumes lo: "- (2 ^ 63) - 1 < x" and hi: "x < 2 ^ 63"
  shows "\<bar>real_of_int (toward_zero (ld_round x)) - x\<bar> < 1"
proof -
  define n where "n = \<lfloor>x\<rfloor>"
  define t where "t = toward_zero (ld_round x)"
  have nx: "real_of_int n \<le> x" and xn: "x < real_of_int n + 1"
    unfolding n_def by linarith+
  from lo have "real_of_int (- (2 ^ 63) - 1) < x"
    by simp
  then have a: "- (2 ^ 63) - 1 \<le> n"
    unfolding n_def by (simp only: le_floor_iff)
  from hi have "x < real_of_int (2 ^ 63)"
    by simp
  then have b: "n < 2 ^ 63"
    unfolding n_def by (simp only: floor_less_iff)
  from a b have small: "\<bar>n\<bar> < 2 ^ 64" "\<bar>n + 1\<bar> < 2 ^ 64"
    by simp_all
  from nx have "toward_zero (ld_round (real_of_int n)) \<le> t"
    unfolding t_def by (rule ticks_mono)
  with small(1) have below: "n \<le> t"
    by (simp only: ticks_of_int)
  from xn have "x \<le> real_of_int (n + 1)"
    by simp
  then have "t \<le> toward_zero (ld_round (real_of_int (n + 1)))"
    unfolding t_def by (rule ticks_mono)
  with small(2) have above: "t \<le> n + 1"
    by (simp only: ticks_of_int)
  have "\<bar>real_of_int t - x\<bar> < 1"
  proof (cases "x = real_of_int n")
    case True
    then have "t = toward_zero (ld_round (real_of_int n))"
      by (simp add: t_def)
    with small(1) have "t = n"
      by (simp only: ticks_of_int)
    with True show ?thesis
      by simp
  next
    case False
    with nx have "real_of_int n < x"
      by linarith
    moreover from below above have "real_of_int n \<le> real_of_int t"
      and "real_of_int t \<le> real_of_int n + 1"
      by simp_all
    ultimately show ?thesis
      using xn by linarith
  qed
  then show ?thesis
    by (simp only: t_def)
qed


section \<open>What each member function computes\<close>

lemma impl_now_eq:
  "impl_now this c =
     ((reading c (reads c),
       snd (m_sync this)
         + duration_cast
             (ld_mul (ld_of_rep (reading c (reads c) - fst (m_sync this))) (m_speed this))),
      this, c\<lparr>reads := Suc (reads c)\<rparr>)"
  by (simp add: impl_now_def steady_clock_now_def)

lemma now_eq:
  "now this c =
     (snd (m_sync this)
        + duration_cast
            (ld_mul (ld_of_rep (reading c (reads c) - fst (m_sync this))) (m_speed this)),
      this, c\<lparr>reads := Suc (reads c)\<rparr>)"
  by (simp add: now_def impl_now_eq)

lemma set_speed_eq:
  "set_speed x this c =
     (\<lparr>m_sync = (reading c (reads c),
         snd (m_sync this)
           + duration_cast
               (ld_mul (ld_of_rep (reading c (reads c) - fst (m_sync this))) (m_speed this))),
       m_speed = x\<rparr>,
      c\<lparr>reads := Suc (reads c)\<rparr>)"
  by (simp add: set_speed_def impl_now_eq)

lemma stopwatch_ctor_eq:
  "stopwatch_ctor x c =
     (\<lparr>m_sync = (reading c (reads c), reading c (reads c)), m_speed = x\<rparr>,
      c\<lparr>reads := Suc (reads c)\<rparr>)"
  by (simp add: stopwatch_ctor_def steady_clock_now_def)

lemma no_elapsed: "duration_cast (ld_mul (ld_of_rep 0) x) = 0"
  by (simp add: ld_of_rep_def ld_mul_def ld_round_zero duration_cast_def toward_zero_zero
      in_range_def)

lemma unit_speed: "duration_cast (ld_mul (ld_of_rep d) 1) = d"
proof -
  have "\<bar>sint d\<bar> < 2 ^ 64"
    using sint_ge [of d] sint_lt [of d] by simp
  then have "toward_zero (ld_round (real_of_int (sint d))) = sint d"
    by (rule ticks_of_int)
  then show ?thesis
    by (simp add: ld_of_rep_def ld_mul_def duration_cast_def in_range_sint)
qed


lemma now_sint:
  assumes "impl_now_defined this c"
  shows "sint (fst (now this c)) =
     sint (snd (m_sync this))
       + toward_zero (ld_round
           (real_of_int (sint (reading c (reads c)) - sint (fst (m_sync this))) * m_speed this))"
proof -
  let ?d = "sint (reading c (reads c)) - sint (fst (m_sync this))"
  let ?a = "toward_zero (ld_round (real_of_int ?d * m_speed this))"
  from assms have d: "in_range ?d" and a: "in_range ?a"
    and s: "in_range (sint (snd (m_sync this)) + ?a)"
    by (simp_all add: impl_now_defined_def Let_def ld_mul_def)
  from d have "ld_of_rep (reading c (reads c) - fst (m_sync this)) = real_of_int ?d"
    by (simp add: ld_of_rep_def sint_diff)
  with a have cast: "duration_cast
      (ld_mul (ld_of_rep (reading c (reads c) - fst (m_sync this))) (m_speed this))
      = word_of_int ?a"
    by (simp add: duration_cast_def ld_mul_def)
  from a have "sint (word_of_int ?a :: 64 word) = ?a"
    by (rule sint_word_of_int)
  with s have "sint (snd (m_sync this) + word_of_int ?a) = sint (snd (m_sync this)) + ?a"
    by (simp add: sint_sum)
  with cast show ?thesis
    by (simp add: now_eq)
qed

lemma now_error:
  assumes "impl_now_defined this c"
  shows "\<bar>real_of_int (sint (reading c (reads c)) - sint (fst (m_sync this))) * m_speed this
          - real_of_int (sint (fst (now this c)) - sint (snd (m_sync this)))\<bar> < 1"
proof -
  let ?p = "real_of_int (sint (reading c (reads c)) - sint (fst (m_sync this))) * m_speed this"
  from assms have a: "in_range (toward_zero (ld_round ?p))"
    by (simp add: impl_now_defined_def Let_def ld_mul_def)
  from ticks_error [OF ticks_bound [OF a]]
  have "\<bar>real_of_int (toward_zero (ld_round ?p)) - ?p\<bar> < 1" .
  with now_sint [OF assms] show ?thesis
    by simp
qed





lemma final_now_Nil: "final_now [] this c = fst (now this c)"
  by (simp add: final_now_def)

lemma final_now_Cons:
  "final_now (x # xs) this c =
     final_now xs (fst (set_speed x this c)) (c\<lparr>reads := Suc (reads c)\<rparr>)"
  by (simp add: final_now_def set_speed_eq)

lemma final_now_defined_Cons:
  "final_now_defined (x # xs) this c
   \<longleftrightarrow> impl_now_defined this c
       \<and> final_now_defined xs (fst (set_speed x this c)) (c\<lparr>reads := Suc (reads c)\<rparr>)"
  by (simp add: set_speed_eq)

lemma set_speed_sync:
  "m_sync (fst (set_speed x this c)) = (reading c (reads c), fst (now this c))"
  "m_speed (fst (set_speed x this c)) = x"
  by (simp_all add: set_speed_eq now_eq)

lemma final_now_segments:
  assumes "final_now_defined xs this c"
  shows "\<bar>real_of_int (sint (final_now xs this c) - sint (snd (m_sync this)))
           - segments (sint (fst (m_sync this))) (m_speed this) xs (reading c) (reads c)\<bar>
         < real (Suc (length xs))"
  using assms
proof (induction xs arbitrary: this c)
  case Nil
  then have "impl_now_defined this c"
    by simp
  from now_error [OF this] show ?case
    by (simp add: final_now_Nil)
next
  case (Cons x xs)
  let ?sw = "fst (set_speed x this c)"
  let ?c = "c\<lparr>reads := Suc (reads c)\<rparr>"
  let ?p = "real_of_int (sint (reading c (reads c)) - sint (fst (m_sync this))) * m_speed this"
  from Cons.prems have d: "impl_now_defined this c" and rest: "final_now_defined xs ?sw ?c"
    by (simp_all only: final_now_defined_Cons)
  from now_error [OF d]
  have step: "\<bar>?p - real_of_int (sint (fst (now this c)) - sint (snd (m_sync this)))\<bar> < 1" .
  from Cons.IH [OF rest]
  have tail: "\<bar>real_of_int (sint (final_now xs ?sw ?c) - sint (fst (now this c)))
     - segments (sint (reading c (reads c))) x xs (reading c) (Suc (reads c))\<bar>
     < real (Suc (length xs))"
    by (simp add: set_speed_sync)
  have "real_of_int (sint (final_now (x # xs) this c) - sint (snd (m_sync this)))
        - segments (sint (fst (m_sync this))) (m_speed this) (x # xs) (reading c) (reads c)
        = (real_of_int (sint (final_now xs ?sw ?c) - sint (fst (now this c)))
            - segments (sint (reading c (reads c))) x xs (reading c) (Suc (reads c)))
          - (?p - real_of_int (sint (fst (now this c)) - sint (snd (m_sync this))))"
    by (simp add: final_now_Cons)
  with step tail show ?case
    by (simp del: of_int_diff of_int_add)
qed

lemma segments_shift:
  "segments a r xs f k = real_of_int (b - a) * r + segments b r xs f k"
  by (cases xs) (simp_all add: algebra_simps)

lemma duration_across_eq:
  "duration_across xs this c = final_now xs this (c\<lparr>reads := Suc (reads c)\<rparr>) - fst (now this c)"
  by (simp add: duration_across_def final_now_def now_eq case_prod_unfold Let_def)

lemma duration_across_defined_eq:
  "duration_across_defined xs this c
   \<longleftrightarrow> impl_now_defined this c
       \<and> final_now_defined xs this (c\<lparr>reads := Suc (reads c)\<rparr>)
       \<and> in_range (sint (final_now xs this (c\<lparr>reads := Suc (reads c)\<rparr>)) - sint (fst (now this c)))"
  by (simp add: duration_across_defined_def now_eq)

lemma duration_across_bound:
  assumes "duration_across_defined xs this c"
  shows "\<bar>real_of_int (sint (duration_across xs this c))
           - segments (sint (reading c (reads c))) (m_speed this) xs (reading c) (Suc (reads c))\<bar>
         < real (Suc (Suc (length xs)))"
proof -
  let ?s = "sint (fst (m_sync this))" and ?l = "sint (snd (m_sync this))" and ?r = "m_speed this"
  let ?t0 = "sint (reading c (reads c))"
  let ?c = "c\<lparr>reads := Suc (reads c)\<rparr>"
  let ?p = "real_of_int (?t0 - ?s) * ?r"
  from assms have d: "impl_now_defined this c" and f: "final_now_defined xs this ?c"
    and r: "in_range (sint (final_now xs this ?c) - sint (fst (now this c)))"
    by (simp_all only: duration_across_defined_eq)
  from now_error [OF d]
  have start: "\<bar>?p - real_of_int (sint (fst (now this c)) - ?l)\<bar> < 1" .
  from final_now_segments [OF f]
  have finish: "\<bar>real_of_int (sint (final_now xs this ?c) - ?l)
      - segments ?s ?r xs (reading c) (Suc (reads c))\<bar> < real (Suc (length xs))"
    by simp
  from r have diff: "sint (duration_across xs this c)
      = sint (final_now xs this ?c) - sint (fst (now this c))"
    by (simp only: duration_across_eq sint_diff)
  have "real_of_int (sint (duration_across xs this c))
          - segments ?t0 ?r xs (reading c) (Suc (reads c))
        = (real_of_int (sint (final_now xs this ?c) - ?l)
            - segments ?s ?r xs (reading c) (Suc (reads c)))
          + (?p - real_of_int (sint (fst (now this c)) - ?l))"
    using segments_shift [of ?s ?r xs "reading c" "Suc (reads c)" ?t0]
    by (simp add: diff)
  with start finish show ?thesis
    by (simp del: of_int_diff of_int_add)
qed

section \<open>The claims\<close>

text \<open>
  C5. \<open>now()\<close> has no side effects on the stopwatch: after the call the object, that is
  the synchronization pair \<open>m_sync\<close> and the speed \<open>m_speed\<close>, is what it was before.
  The accessor \<open>speed()\<close> leaves it alone as well, so the pair is rebound by
  \<open>set_speed\<close> and set by the constructor only.
\<close>

theorem now_no_side_effects:
  "fst (snd (now this c)) = this
   \<and> m_sync (fst (snd (now this c))) = m_sync this
   \<and> m_speed (fst (snd (now this c))) = m_speed this
   \<and> snd (speed this) = this"
  by (simp add: now_eq speed_def)

text \<open>
  C2. \<open>now()\<close> returns the logical time of the synchronization point plus the ticks
  of the steady time elapsed since the synchronization point times the speed: the
  elapsed ticks are converted to \<open>long double\<close>, multiplied by the speed in
  \<open>long double\<close>, and the product is converted back to ticks. The call reads the
  steady clock exactly once: the clock it leaves behind has one more read, and the
  reading used is the one that read delivered. When the call has defined behaviour
  the returned tick count is, as an integer, the one of the synchronization point plus
  the truncation of the rounded product, and the ticks added are within one tick of
  the exact product. This holds for every reading, so in particular for the readings at
  or after the synchronization reading.
\<close>

theorem now_correct:
  "fst (now this c) =
     snd (m_sync this)
       + duration_cast
           (ld_mul (ld_of_rep (reading c (reads c) - fst (m_sync this))) (m_speed this))
   \<and> snd (snd (now this c)) = c\<lparr>reads := Suc (reads c)\<rparr>
   \<and> (impl_now_defined this c \<longrightarrow>
        sint (fst (now this c)) =
          sint (snd (m_sync this))
            + toward_zero (ld_round
                (real_of_int (sint (reading c (reads c)) - sint (fst (m_sync this)))
                   * m_speed this))
        \<and> \<bar>real_of_int (sint (reading c (reads c)) - sint (fst (m_sync this))) * m_speed this
             - real_of_int (sint (fst (now this c)) - sint (snd (m_sync this)))\<bar> < 1)"
  using now_sint [of this c] now_error [of this c] by (simp add: now_eq)

theorem now_correct_witness:
  "impl_now_defined \<lparr>m_sync = (0, 0), m_speed = 12912720851596686131 / 2 ^ 64\<rparr> (ticking 10 0)
   \<and> fst (now \<lparr>m_sync = (0, 0), m_speed = 12912720851596686131 / 2 ^ 64\<rparr> (ticking 10 0)) = 7
   \<and> toward_zero (ld_round (real_of_int (sint (reading (ticking 10 0) (reads (ticking 10 0)))
          - sint (fst (m_sync \<lparr>m_sync = (0, 0), m_speed = 12912720851596686131 / 2 ^ 64\<rparr>)))
        * m_speed \<lparr>m_sync = (0, 0), m_speed = 12912720851596686131 / 2 ^ 64\<rparr>)) = 7"
  using now_correct [of "\<lparr>m_sync = (0, 0), m_speed = 12912720851596686131 / 2 ^ 64\<rparr>" "ticking 10 0"]
    ld_round_scaled [of "10 * (12912720851596686131 / 2 ^ 64)" 61]
  by (simp add: impl_now_defined_def ticking_def ld_mul_def ld_of_rep_def in_range_def
      toward_zero_def round_even_def duration_cast_def now_eq)

text \<open>
  C3. \<open>set_speed(x)\<close> takes the pair (steady now, logical now) from \<open>impl_now\<close>, which
  computes the logical time as \<open>now()\<close> does, with the speed the stopwatch had before
  the call; it makes that pair the synchronization point and \<open>x\<close> the speed. The new
  speed has no part in the captured pair: any other new speed \<open>y\<close> captures the same.
  One reading of the steady clock is taken.
\<close>

theorem set_speed_step:
  "fst (set_speed x this c) = \<lparr>m_sync = fst (impl_now this c), m_speed = x\<rparr>
   \<and> fst (impl_now this c) = (reading c (reads c), fst (now this c))
   \<and> fst (now this c) =
       snd (m_sync this)
         + duration_cast
             (ld_mul (ld_of_rep (reading c (reads c) - fst (m_sync this))) (m_speed this))
   \<and> m_sync (fst (set_speed x this c)) = m_sync (fst (set_speed y this c))
   \<and> snd (set_speed x this c) = c\<lparr>reads := Suc (reads c)\<rparr>"
  by (simp add: set_speed_eq impl_now_eq now_eq)

text \<open>
  C7. After \<open>set_speed(x)\<close> the accessor \<open>speed()\<close> returns \<open>x\<close> itself, whatever \<open>x\<close>
  is (so also for 0, 1, -1, 2.5 and -0.3), and \<open>speed()\<close> returns the field \<open>m_speed\<close>
  and leaves the stopwatch as it was.
\<close>

theorem speed_fidelity:
  "fst (speed (fst (set_speed x this c))) = x
   \<and> snd (speed this) = this
   \<and> fst (speed this) = m_speed this"
  by (simp add: set_speed_eq speed_def)

text \<open>
  C8. A stopwatch constructed with the default speed 1 is aligned with the steady clock:
  its synchronization point is the construction reading on both sides, and the first
  \<open>now()\<close> after the construction returns the steady clock's own reading at that call,
  which is then within one tick of it.
\<close>

theorem default_alignment:
  "fst (now (fst (stopwatch_default c)) (snd (stopwatch_default c))) = reading c (Suc (reads c))
   \<and> \<bar>sint (fst (now (fst (stopwatch_default c)) (snd (stopwatch_default c))))
        - sint (reading c (Suc (reads c)))\<bar> \<le> 1
   \<and> m_sync (fst (stopwatch_default c)) = (reading c (reads c), reading c (reads c))
   \<and> m_speed (fst (stopwatch_default c)) = 1"
  by (simp add: stopwatch_default_def stopwatch_ctor_eq now_eq unit_speed)

text \<open>
  C1. Logical time is continuous across a change of speed. When \<open>now()\<close>, \<open>set_speed(x)\<close>
  and \<open>now()\<close> are called at one and the same steady instant, the time point returned
  after the change is the time point returned before it: there is no jump, whatever the
  state, the instant and the old and the new speed are.
\<close>

theorem continuity:
  assumes "reading c (Suc (reads c)) = reading c (reads c)"
    and "reading c (Suc (Suc (reads c))) = reading c (reads c)"
  shows "fst (run [Now, Set_speed x, Now] (this, c))
         = [Time_point (fst (now this c)), Void, Time_point (fst (now this c))]"
  using assms by (simp add: now_eq set_speed_eq no_elapsed)

theorem continuity_witness:
  "reading (ticking 7 0) (Suc (reads (ticking 7 0))) = reading (ticking 7 0) (reads (ticking 7 0))
   \<and> reading (ticking 7 0) (Suc (Suc (reads (ticking 7 0)))) = reading (ticking 7 0) (reads (ticking 7 0))
   \<and> fst (run [Now, Set_speed (- 1), Now] (\<lparr>m_sync = (3, 10), m_speed = 5 / 2\<rparr>, ticking 7 0))
       = [Time_point 20, Void, Time_point 20]"
  using continuity [of "ticking 7 0" "- 1" "\<lparr>m_sync = (3, 10), m_speed = 5 / 2\<rparr>"]
    ld_round_of_int [of 10]
  by (simp add: ticking_def now_eq ld_mul_def ld_of_rep_def duration_cast_def toward_zero_def
      in_range_def)




text \<open>
  C4. A time point is taken by \<open>now()\<close>, the speed is changed by the calls
  \<open>set_speed\<close> of a list of speeds, and a second time point is taken by \<open>now()\<close>.
  When all these calls have defined behaviour, the duration between the two time points
  is the sum over the segments of (steady duration of the segment times its speed),
  within rounding: the two differ by less than one tick for each conversion to ticks,
  of which there is one for each call (two more than the changes of speed). The
  duration is not the total steady time elapsed times the final speed: in some run
  with a change of speed the two differ by more than that tolerance.
\<close>

theorem duration_across_segments:
  "(duration_across_defined xs this c \<longrightarrow>
      \<bar>real_of_int (sint (duration_across xs this c))
         - segments (sint (reading c (reads c))) (m_speed this) xs (reading c) (Suc (reads c))\<bar>
        < real (Suc (Suc (length xs))))
   \<and> (\<exists>ys sw k. ys \<noteq> [] \<and> duration_across_defined ys sw k
         \<and> real (Suc (Suc (length ys)))
             \<le> \<bar>real_of_int (sint (duration_across ys sw k)) - elapsed_at_final_rate ys sw k\<bar>)"
proof (intro conjI impI)
  assume "duration_across_defined xs this c"
  then show "\<bar>real_of_int (sint (duration_across xs this c))
         - segments (sint (reading c (reads c))) (m_speed this) xs (reading c) (Suc (reads c))\<bar>
        < real (Suc (Suc (length xs)))"
    by (rule duration_across_bound)
next
  let ?ys = "[- 1, 5 / 2, 0 :: real]"
  let ?sw = "\<lparr>m_sync = (0, 0), m_speed = 1\<rparr>"
  let ?k = "ticking 1000 1000"
  have "?ys \<noteq> [] \<and> duration_across_defined ?ys ?sw ?k
      \<and> real (Suc (Suc (length ?ys)))
          \<le> \<bar>real_of_int (sint (duration_across ?ys ?sw ?k)) - elapsed_at_final_rate ?ys ?sw ?k\<bar>"
    using ld_round_of_int [of 1000] ld_round_of_int [of 2000] ld_round_of_int [of "- 1000"]
      ld_round_of_int [of 2500]
    by (simp add: duration_across_eq duration_across_defined_eq final_now_Cons final_now_Nil
        set_speed_eq now_eq ticking_def impl_now_defined_def ld_mul_def ld_of_rep_def
        duration_cast_def toward_zero_def in_range_def elapsed_at_final_rate_def ld_round_zero)
  then show "\<exists>ys sw k. ys \<noteq> [] \<and> duration_across_defined ys sw k
         \<and> real (Suc (Suc (length ys)))
             \<le> \<bar>real_of_int (sint (duration_across ys sw k)) - elapsed_at_final_rate ys sw k\<bar>"
    by blast
qed

theorem duration_across_segments_witness:
  "duration_across_defined [- (1 - 1 / 2 ^ 64)]
     \<lparr>m_sync = (0, 0), m_speed = 8564559748508006107 / 2 ^ 61\<rparr> (replay [7, 35, 36])
   \<and> duration_across [- (1 - 1 / 2 ^ 64)]
       \<lparr>m_sync = (0, 0), m_speed = 8564559748508006107 / 2 ^ 61\<rparr> (replay [7, 35, 36]) = 105
   \<and> \<bar>real_of_int (sint (duration_across [- (1 - 1 / 2 ^ 64)]
           \<lparr>m_sync = (0, 0), m_speed = 8564559748508006107 / 2 ^ 61\<rparr> (replay [7, 35, 36])))
        - segments (sint (reading (replay [7, 35, 36]) (reads (replay [7, 35, 36]))))
            (m_speed \<lparr>m_sync = (0, 0), m_speed = 8564559748508006107 / 2 ^ 61\<rparr>)
            [- (1 - 1 / 2 ^ 64)] (reading (replay [7, 35, 36]))
            (Suc (reads (replay [7, 35, 36])))\<bar>
      < real (Suc (Suc (length [- (1 - 1 / 2 ^ 64) :: real])))"
proof -
  let ?sw = "\<lparr>m_sync = (0, 0), m_speed = 8564559748508006107 / 2 ^ 61\<rparr>"
  let ?xs = "[- (1 - 1 / 2 ^ 64) :: real]"
  let ?c = "replay [7, 35, 36]"
  have t7: "toward_zero (ld_round (7 * (8564559748508006107 / 2 ^ 61))) = 25"
  proof -
    have "ld_round (7 * (8564559748508006107 / 2 ^ 61))
        = real_of_int (round_even (7 * (8564559748508006107 / 2 ^ 61) * 2 ^ 59)) / 2 ^ 59"
      by (rule ld_round_scaled) simp_all
    also have "round_even (7 * (8564559748508006107 / 2 ^ 61) * 2 ^ 59) = 14987979559889010687"
      by (simp add: round_even_def)
    finally have e: "ld_round (7 * (8564559748508006107 / 2 ^ 61))
        = real_of_int 14987979559889010687 / 2 ^ 59" .
    show ?thesis
      unfolding e by (simp add: toward_zero_def)
  qed
  have t35: "toward_zero (ld_round (35 * (8564559748508006107 / 2 ^ 61))) = 130"
  proof -
    have "ld_round (35 * (8564559748508006107 / 2 ^ 61))
        = real_of_int (round_even (35 * (8564559748508006107 / 2 ^ 61) * 2 ^ 56)) / 2 ^ 56"
      by (rule ld_round_scaled) simp_all
    also have "round_even (35 * (8564559748508006107 / 2 ^ 61) * 2 ^ 56) = 9367487224930631680"
      by (simp add: round_even_def)
    finally have e: "ld_round (35 * (8564559748508006107 / 2 ^ 61))
        = real_of_int 9367487224930631680 / 2 ^ 56" .
    show ?thesis
      unfolding e by (simp add: toward_zero_def)
  qed
  have t1: "toward_zero (ld_round (- (1 - 1 / 2 ^ 64))) = 0"
    using ld_round_dyadic [of "- (2 ^ 64 - 1)" "- 64"] by (simp add: toward_zero_def)
  have d: "duration_across_defined ?xs ?sw ?c"
    using t7 t35 t1
    by (simp add: duration_across_defined_eq final_now_Cons final_now_Nil
        set_speed_eq now_eq replay_def impl_now_defined_def ld_mul_def ld_of_rep_def
        duration_cast_def in_range_def)
  have v: "duration_across ?xs ?sw ?c = 105"
    using t7 t35 t1
    by (simp add: duration_across_eq final_now_Cons final_now_Nil
        set_speed_eq now_eq replay_def ld_mul_def ld_of_rep_def
        duration_cast_def in_range_def)
  from duration_across_segments [of ?xs ?sw ?c] d
  have "\<bar>real_of_int (sint (duration_across ?xs ?sw ?c))
        - segments (sint (reading ?c (reads ?c))) (m_speed ?sw) ?xs (reading ?c) (Suc (reads ?c))\<bar>
      < real (Suc (Suc (length ?xs)))"
    by blast
  with d v show ?thesis
    by blast
qed

end
